theory Spec2Isabelle
  imports Main "HOL-Library.Word" "HOL-Library.AList" "HOL-Library.Signed_Division"
begin

section \<open>Data model of the puller\<close>

text \<open>
  The development embeds the Go package \<open>pull\<close> (the Puller): its constructor
  \<open>NewPuller\<close>, \<open>Logf\<close>, \<open>limitToNewChunks\<close>, \<open>getCmp\<close>, the driver loop of
  \<open>Pull\<close>, \<open>processCompletedTables\<close> and \<open>uploadTempTableFile\<close>.

  A \<open>hash.Hash\<close> is an opaque fixed-width address; it is a natural number here.
  A \<open>hash.HashSet\<close> is a Go map used as a set. It is a list without duplicates whose
  order is the order in which \<open>range\<close> visits the keys; Go leaves that order open, and
  every theorem below holds for every order.
\<close>

type_synonym addr = nat
type_synonym hashset = "addr list"
type_synonym byte = "8 word"
type_synonym uint64 = "64 word"

definition Has :: "hashset \<Rightarrow> addr \<Rightarrow> bool" where
  "Has s h = (h \<in> set s)"

definition Insert :: "addr \<Rightarrow> hashset \<Rightarrow> hashset" where
  "Insert h s = (if Has s h then s else s @ [h])"

definition Remove :: "addr \<Rightarrow> hashset \<Rightarrow> hashset" where
  "Remove h s = removeAll h s"

definition Size :: "hashset \<Rightarrow> nat" where
  "Size s = length s"

definition InsertAll :: "hashset \<Rightarrow> hashset \<Rightarrow> hashset" where
  "InsertAll s other = foldl (\<lambda>acc h. Insert h acc) s other"

definition NewHashSet :: "addr list \<Rightarrow> hashset" where
  "NewHashSet hs = foldl (\<lambda>acc h. Insert h acc) [] hs"

text \<open>
  Errors are values. \<open>ErrDBUpToDate\<close> and \<open>ErrIncompatibleSourceChunkStore\<close> are the
  two package-level error variables the source declares. \<open>ErrorsNew msg\<close> is the value
  of an \<open>errors.New(msg)\<close> written at the place of the return, \<open>FmtErrorf fmt args\<close>
  that of a \<open>fmt.Errorf\<close>. \<open>External n\<close> is an error handed back by a collaborator
  (a chunk store, the table-file writer, the walker, the context). \<open>Panic\<close> is a
  run-time panic.
\<close>

datatype error =
    ErrDBUpToDate
  | ErrIncompatibleSourceChunkStore
  | ErrorsNew string
  | FmtErrorf string "string list"
  | External nat
  | Panic string

definition sentinels :: "error set" where
  "sentinels = {ErrDBUpToDate, ErrIncompatibleSourceChunkStore}"

record chunk =
  c_hash :: addr
  c_data :: "byte list"

record CompressedChunk =
  H :: addr
  FullCompressedChunk :: "byte list"
  CompressedData :: "byte list"

text \<open>\<open>WalkAddrs\<close>: the walker calls the callback on each outbound address with a
  leaf flag, and returns an error or nil. The callbacks the puller passes never fail, so
  a walker is the list of its callback calls and its own result.\<close>

type_synonym WalkAddrs = "chunk \<Rightarrow> (addr \<times> bool) list \<times> error option"

text \<open>Modelled from the spec: the chunk-store interface (\<open>chunks.ChunkStore\<close>, section
  4.5), whose implementations are not part of the sources at hand. A store has a version
  and a content; \<open>HasMany\<close> is the set difference of the asked addresses with the
  content, or an error of the store. \<open>cs_compressed\<close> says that the store also
  implements \<open>nbs.NBSCompressedChunkStore\<close>, \<open>cs_logging\<close> that it implements
  \<open>chunks.LoggingChunkStore\<close>.\<close>

record chunkstore =
  cs_version :: string
  cs_chunks :: "addr list"
  cs_compressed :: bool
  cs_logging :: bool
  cs_logger_set :: bool

definition Version :: "chunkstore \<Rightarrow> string" where
  "Version cs = cs_version cs"

definition HasMany :: "chunkstore \<Rightarrow> error option \<Rightarrow> hashset \<Rightarrow> error + hashset" where
  "HasMany cs failure hs =
     (case failure of
        Some err \<Rightarrow> Inl err
      | None \<Rightarrow> Inr (filter (\<lambda>h. h \<notin> set (cs_chunks cs)) hs))"

text \<open>Modelled from the spec: the table-file writer \<open>nbs.CmpChunkTableWriter\<close>
  (section 4.4), which is not part of the sources at hand. It appends compressed chunks
  without deduplicating, its chunk count is the number of chunks appended, its content
  length is the number of bytes written so far, \<open>Finish\<close> appends index and footer
  (\<open>w_trailer\<close> bytes), and it is backed by a temp file (\<open>w_file\<close>) in the temp
  directory.\<close>

record CmpChunkTableWriter =
  w_file :: nat
  w_chunks :: "CompressedChunk list"
  w_finished :: bool
  w_trailer :: nat

definition NewCmpChunkTableWriter :: "nat \<Rightarrow> CmpChunkTableWriter" where
  "NewCmpChunkTableWriter f = \<lparr>w_file = f, w_chunks = [], w_finished = False, w_trailer = 0\<rparr>"

definition ChunkCount :: "CmpChunkTableWriter \<Rightarrow> int" where
  "ChunkCount w = int (length (w_chunks w))"

definition ContentLength :: "CmpChunkTableWriter \<Rightarrow> uint64" where
  "ContentLength w =
     of_nat (sum_list (map (\<lambda>c. length (FullCompressedChunk c)) (w_chunks w))
             + (if w_finished w then w_trailer w else 0))"

definition AddCmpChunk :: "CmpChunkTableWriter \<Rightarrow> CompressedChunk \<Rightarrow> error + CmpChunkTableWriter" where
  "AddCmpChunk w c =
     (if w_finished w then Inl (ErrorsNew ''finalized'')
      else Inr (w\<lparr>w_chunks := w_chunks w @ [c]\<rparr>))"

record stats =
  finishedSendBytes :: uint64
  bufferedSendBytes :: uint64
  sendBytesPerSec :: uint64
  totalSourceChunks :: uint64
  fetchedSourceChunks :: uint64
  fetchedSourceBytes :: uint64
  fetchedSourceBytesPerSec :: uint64

definition zero_stats :: stats where
  "zero_stats = \<lparr>finishedSendBytes = 0, bufferedSendBytes = 0, sendBytesPerSec = 0,
     totalSourceChunks = 0, fetchedSourceChunks = 0, fetchedSourceBytes = 0,
     fetchedSourceBytesPerSec = 0\<rparr>"

text \<open>The \<open>Puller\<close> struct. \<open>wr\<close> and \<open>pushLog\<close> are pointers that may be nil.
  \<open>downlaoded\<close> is the set the identifier of that spelling in \<open>limitToNewChunks\<close>
  names; the source declares no such variable, and the model keeps it apart from
  \<open>downloaded\<close>, which is how the text of the source reads.\<close>

record Puller =
  waf :: WalkAddrs
  srcChunkStore :: chunkstore
  sinkDBCS :: chunkstore
  hashes :: hashset
  downloaded :: hashset
  downlaoded :: hashset
  wr :: "CmpChunkTableWriter option"
  tempDir :: string
  chunksPerTF :: int
  pushLog :: "nat option"
  statsCh :: bool
  pstats :: stats

section \<open>The constructor\<close>

text \<open>What the constructor meets outside the program: the errors of the two
  \<open>HasMany\<close> calls and of \<open>nbs.NewCmpChunkTableWriter\<close>, the value of the
  environment variable \<open>PUSH_LOG\<close> (\<open>os.LookupEnv\<close>) and the error of
  \<open>os.OpenFile\<close> on \<open>push.log\<close>.\<close>

record ctor_env =
  src_has_many_err :: "error option"
  sink_has_many_err :: "error option"
  new_writer_err :: "error option"
  lookup_PUSH_LOG :: "string option"
  open_file_err :: "error option"

definition to_lower_char :: "char \<Rightarrow> char" where
  "to_lower_char c =
     (case map_of (zip ''ABCDEFGHIJKLMNOPQRSTUVWXYZ'' ''abcdefghijklmnopqrstuvwxyz'') c of
        Some l \<Rightarrow> l
      | None \<Rightarrow> c)"

definition ToLower :: "string \<Rightarrow> string" where
  "ToLower s = map to_lower_char s"

definition version_fmt :: string where
  "version_fmt = ''cannot pull from src to sink; src version is %v and sink version is %v''"

definition open_push_log :: "ctor_env \<Rightarrow> nat option" where
  "open_push_log ev =
     (case lookup_PUSH_LOG ev of
        None \<Rightarrow> None
      | Some dbg \<Rightarrow>
          if ToLower dbg = ''true''
          then (case open_file_err ev of None \<Rightarrow> Some 0 | Some err \<Rightarrow> None)
          else None)"

definition NewPuller ::
  "ctor_env \<Rightarrow> string \<Rightarrow> int \<Rightarrow> chunkstore \<Rightarrow> chunkstore \<Rightarrow> WalkAddrs \<Rightarrow> addr list \<Rightarrow> bool
     \<Rightarrow> error + Puller" where
  "NewPuller ev tmpDir cPerTF srcCS sinkCS walkAddrs hs0 statsChan =
     (case HasMany srcCS (src_has_many_err ev) (NewHashSet hs0) of
        Inl err \<Rightarrow> Inl err
      | Inr missing \<Rightarrow>
          if Size missing \<noteq> 0 then Inl (ErrorsNew ''not found'')
          else (case HasMany sinkCS (sink_has_many_err ev) (NewHashSet hs0) of
             Inl err \<Rightarrow> Inl err
           | Inr missing2 \<Rightarrow>
               if Size missing2 = 0 then Inl ErrDBUpToDate
               else if Version srcCS \<noteq> Version sinkCS
                 then Inl (FmtErrorf version_fmt [Version srcCS, Version sinkCS])
               else if \<not> cs_compressed srcCS then Inl ErrIncompatibleSourceChunkStore
               else (case new_writer_err ev of
                  Some err \<Rightarrow> Inl err
                | None \<Rightarrow>
                    Inr \<lparr>waf = walkAddrs,
                         srcChunkStore = srcCS,
                         sinkDBCS = (if cs_logging sinkCS then sinkCS\<lparr>cs_logger_set := True\<rparr>
                                     else sinkCS),
                         hashes = NewHashSet hs0,
                         downloaded = [],
                         downlaoded = [],
                         wr = Some (NewCmpChunkTableWriter 0),
                         tempDir = tmpDir,
                         chunksPerTF = cPerTF,
                         pushLog = open_push_log ev,
                         statsCh = statsChan,
                         pstats = zero_stats\<rparr>)))"

text \<open>\<open>Logf\<close> prints to the push log when there is one. The log is the list of the
  records printed so far.\<close>

definition Logf :: "Puller \<Rightarrow> string \<Rightarrow> string list \<Rightarrow> (string \<times> string list) list
    \<Rightarrow> (string \<times> string list) list" where
  "Logf p fmt args lg = (if pushLog p \<noteq> None then lg @ [(fmt, args)] else lg)"

section \<open>Splitting a level into batches\<close>

text \<open>
  \<open>limitToNewChunks absent downloaded maxBatchSize\<close>. Go maps are references: the
  first branch removes keys from the caller's \<open>absent\<close> and returns that same map as the
  only batch; the second branch builds new batches and calls \<open>Insert\<close> on
  \<open>downlaoded\<close>. The model returns the count, the batches and the new value of
  \<open>downlaoded\<close>. \<open>int64\<close> values are lengths and small sums of lengths, far from
  the range's ends, so they are integers; \<open>/\<close> and \<open>%\<close> truncate (\<open>sdiv\<close>,
  \<open>smod\<close>), a zero divisor panics, and so does \<open>make\<close> with a capacity below the
  length.

  In the loop of the second branch \<open>currentNewBatch\<close> is always the last element of
  \<open>newBatches\<close>: the accumulator is the batches before it, the current batch, the set
  \<open>downlaoded\<close> and \<open>totalAbsent\<close>.
\<close>

fun batchLoop ::
  "hashset \<Rightarrow> hashset \<Rightarrow> int \<Rightarrow> hashset list \<times> hashset \<times> hashset \<times> int
     \<Rightarrow> hashset list \<times> hashset \<times> hashset \<times> int" where
  "batchLoop [] dl batchSize acc = acc"
| "batchLoop (k # ks) dl batchSize (full, currentNewBatch, dlt, totalAbsent) =
     (if \<not> Has dl k
      then (if (totalAbsent + 1) smod batchSize = 0
            then batchLoop ks dl batchSize
                   (full @ [Insert k currentNewBatch], [], Insert k dlt, totalAbsent + 1)
            else batchLoop ks dl batchSize
                   (full, Insert k currentNewBatch, Insert k dlt, totalAbsent + 1))
      else batchLoop ks dl batchSize (full, currentNewBatch, dlt, totalAbsent))"

definition limitToNewChunks ::
  "hashset \<Rightarrow> hashset \<Rightarrow> hashset \<Rightarrow> int \<Rightarrow> error + (int \<times> hashset list \<times> hashset)" where
  "limitToNewChunks absent dl dlt maxBatchSize =
     (let numAbsent = int (length absent) in
      if numAbsent < maxBatchSize
      then (let absent' =
                  (if length absent > length dl
                   then foldl (\<lambda>a k. if Has a k then Remove k a else a) absent dl
                   else foldl (\<lambda>a k. if Has dl k then Remove k a else a) absent absent)
            in Inr (int (length absent'), [absent'], dlt))
      else if maxBatchSize = 0 then Inl (Panic ''integer divide by zero'')
      else (let numBatches = (numAbsent sdiv maxBatchSize) + 1 in
            if numBatches = 0 then Inl (Panic ''integer divide by zero'')
            else (let batchSize = (numAbsent sdiv numBatches) + 1 in
                  if numBatches < 1 then Inl (Panic ''makeslice: cap out of range'')
                  else (case batchLoop absent dl batchSize ([], [], dlt, 0) of
                          (full, currentNewBatch, dlt', totalAbsent) \<Rightarrow>
                            Inr (totalAbsent, full @ [currentNewBatch], dlt')))))"

section \<open>The fetch, walk and pack stages of one batch\<close>

text \<open>
  The state of a running pull: the \<open>Puller\<close> struct, and what the pull has done to its
  surroundings so far: the batches passed to \<open>GetManyCompressed\<close>, the writers sent on
  the completed-tables channel, whether that channel is closed, and the next temp-file
  name. \<open>clock\<close> counts the points where the pull may be stopped from outside.

  The surroundings: \<open>faults\<close> says, for each such point, whether it fails and with
  what error (a cancelled context at a \<open>select\<close> or a semaphore, an I/O error of a
  store or of a writer); \<open>GetManyCompressed\<close> gives, for the n-th call and its batch,
  the chunks that reach the \<open>found\<close> channel and the error the call returns;
  \<open>ToChunk\<close> decompresses.
\<close>

record pstate = Puller +
  clock :: nat
  fetch_calls :: "hashset list"
  completedTables :: "CmpChunkTableWriter list"
  chan_closed :: bool
  next_file :: nat

record env =
  faults :: "nat \<Rightarrow> error option"
  GetManyCompressed :: "nat \<Rightarrow> hashset \<Rightarrow> CompressedChunk list \<times> error option"
  ToChunk :: "CompressedChunk \<Rightarrow> error + chunk"

definition tick :: "env \<Rightarrow> pstate \<Rightarrow> error option \<times> pstate" where
  "tick ev st = (faults ev (clock st), st\<lparr>clock := Suc (clock st)\<rparr>)"

definition collect_refs :: "(addr \<times> bool) list \<Rightarrow> (addr \<times> bool) list" where
  "collect_refs calls = foldl (\<lambda>refs (h, isleaf). AList.update h isleaf refs) [] calls"

text \<open>The rotation of the writer in the pack stage: when the writer holds at least
  \<open>chunksPerTF\<close> chunks it is sent on the completed-tables channel (or the context is
  done), \<open>p.wr\<close> becomes nil, the semaphore is acquired and a new writer is opened.\<close>

definition rotate :: "env \<Rightarrow> pstate \<Rightarrow> error option \<times> pstate" where
  "rotate ev st =
     (case wr st of
        None \<Rightarrow> (Some (Panic ''nil pointer dereference''), st)
      | Some w \<Rightarrow>
          if ChunkCount w \<ge> chunksPerTF st
          then (case tick ev st of
                  (Some err, st1) \<Rightarrow> (Some err, st1)
                | (None, st1) \<Rightarrow>
                    (case tick ev (st1\<lparr>completedTables := completedTables st1 @ [w], wr := None\<rparr>) of
                       (Some err, st2) \<Rightarrow> (Some err, st2)
                     | (None, st2) \<Rightarrow>
                         (case tick ev st2 of
                            (Some err, st3) \<Rightarrow> (Some err, st3)
                          | (None, st3) \<Rightarrow>
                              (None, st3\<lparr>wr := Some (NewCmpChunkTableWriter (next_file st3)),
                                          next_file := Suc (next_file st3)\<rparr>))))
          else (None, st))"

text \<open>One chunk through the three goroutines of \<open>getCmp\<close>: the callback of the fetch
  counts it; the second goroutine receives it (or the context is done), decompresses it,
  walks it and sends chunk and references on (or the context is done); the third receives
  it (or the context is done), counts it in \<open>seen\<close>, appends it to the writer, counts
  its bytes, rotates the writer and inserts the references into \<open>nextLevel\<close>.

  The goroutines run concurrently over two buffered channels. The model takes the chunks
  one after the other, in the order in which they reach the \<open>found\<close> channel, each
  through all three stages; the other interleavings differ in how far the later stages
  have come when an earlier one fails, not in what a stage does with a chunk.\<close>

definition processChunk ::
  "env \<Rightarrow> CompressedChunk \<Rightarrow> nat \<times> hashset \<Rightarrow> pstate \<Rightarrow> (error + nat \<times> hashset) \<times> pstate" where
  "processChunk ev c acc st =
     (case acc of (seen, nextLevel) \<Rightarrow>
      let st0 = st\<lparr>pstats := (pstats st)
                   \<lparr>fetchedSourceBytes := fetchedSourceBytes (pstats st)
                        + of_nat (length (FullCompressedChunk c)),
                    fetchedSourceChunks := fetchedSourceChunks (pstats st) + 1\<rparr>\<rparr> in
      case tick ev st0 of
        (Some err, st1) \<Rightarrow> (Inl err, st1)
      | (None, st1) \<Rightarrow>
      (case ToChunk ev c of
         Inl err \<Rightarrow> (Inl err, st1)
       | Inr chnk \<Rightarrow>
      (case waf st1 chnk of
         (calls, Some err) \<Rightarrow> (Inl err, st1)
       | (calls, None) \<Rightarrow>
      (let refs = collect_refs calls in
       case tick ev st1 of
         (Some err, st2) \<Rightarrow> (Inl err, st2)
       | (None, st2) \<Rightarrow>
      (case tick ev st2 of
         (Some err, st3) \<Rightarrow> (Inl err, st3)
       | (None, st3) \<Rightarrow>
      (case wr st3 of
         None \<Rightarrow> (Inl (Panic ''nil pointer dereference''), st3)
       | Some w \<Rightarrow>
      (case tick ev st3 of
         (Some err, st4) \<Rightarrow> (Inl err, st4)
       | (None, st4) \<Rightarrow>
      (case AddCmpChunk w c of
         Inl err \<Rightarrow> (Inl err, st4)
       | Inr w' \<Rightarrow>
      (let st5 = st4\<lparr>wr := Some w',
                     pstats := (pstats st4)
                       \<lparr>bufferedSendBytes := bufferedSendBytes (pstats st4)
                            + of_nat (length (FullCompressedChunk c))\<rparr>\<rparr> in
       case rotate ev st5 of
         (Some err, st6) \<Rightarrow> (Inl err, st6)
       | (None, st6) \<Rightarrow>
           (Inr (Suc seen, foldl (\<lambda>nl (h, isleaf). Insert h nl) nextLevel refs), st6))))))))))"

fun packLoop ::
  "env \<Rightarrow> CompressedChunk list \<Rightarrow> nat \<times> hashset \<Rightarrow> pstate \<Rightarrow> (error + nat \<times> hashset) \<times> pstate" where
  "packLoop ev [] acc st = (Inr acc, st)"
| "packLoop ev (c # cs) acc st =
     (case processChunk ev c acc st of
        (Inl err, st') \<Rightarrow> (Inl err, st')
      | (Inr acc', st') \<Rightarrow> packLoop ev cs acc' st')"

text \<open>\<open>getCmp\<close>. The source declares it with the parameters \<open>ctx\<close>, \<open>nextLevel\<close>
  and \<open>completedTables\<close>, its body reads \<open>batch\<close>, and its one call passes the batch
  as second argument: \<open>batch\<close> is a parameter here. When the fetch returns an error,
  the \<open>found\<close> channel is never closed and that error is the result; otherwise the
  channels are closed one after the other and the third goroutine compares \<open>seen\<close>
  with the size of the batch. The result is the error or the updated \<open>nextLevel\<close>.\<close>

definition getCmp :: "env \<Rightarrow> hashset \<Rightarrow> hashset \<Rightarrow> pstate \<Rightarrow> (error + hashset) \<times> pstate" where
  "getCmp ev batch nextLevel st =
     (let st0 = st\<lparr>pstats := (pstats st)
                   \<lparr>totalSourceChunks := totalSourceChunks (pstats st) + of_nat (length batch)\<rparr>,
                  fetch_calls := fetch_calls st @ [batch]\<rparr> in
      case GetManyCompressed ev (length (fetch_calls st)) batch of
        (found, gerr) \<Rightarrow>
          (case packLoop ev found (0, nextLevel) st0 of
             (Inl err, st1) \<Rightarrow> (Inl err, st1)
           | (Inr (seen, nextLevel'), st1) \<Rightarrow>
               (case gerr of
                  Some err \<Rightarrow> (Inl err, st1)
                | None \<Rightarrow>
                    if seen \<noteq> length batch
                    then (Inl (ErrorsNew ''failed to get all chunks.''), st1)
                    else (Inr nextLevel', st1))))"

section \<open>The driver of a pull\<close>

text \<open>
  The second goroutine of \<open>Pull\<close>. Both of its loops may run for ever (the inner one
  sets \<open>i\<close> back to \<open>-1\<close>, the outer one runs while \<open>numAbsent\<close> is positive), so
  both take fuel, and \<open>None\<close> as result says that the fuel ran out; the state reached
  is returned in every case. \<open>maxBatch\<close> is the constant \<open>64*1024\<close>.

  The driver never waits here: a send on the completed-tables channel and an
  \<open>Acquire\<close> of the semaphore either go through or end with the error of the done
  context, as \<open>faults\<close> says. The statistics emitter that \<open>Pull\<close> starts when
  there is a statistics channel is left out.
\<close>

definition maxBatch :: int where
  "maxBatch = 64 * 1024"

fun batchesLoop ::
  "nat \<Rightarrow> env \<Rightarrow> nat \<Rightarrow> hashset list \<Rightarrow> hashset \<Rightarrow> pstate \<Rightarrow> (error + hashset) option \<times> pstate" where
  "batchesLoop 0 ev i absentBatches nextAbsent st = (None, st)"
| "batchesLoop (Suc n) ev i absentBatches nextAbsent st =
     (if \<not> i < length absentBatches then (Some (Inr nextAbsent), st)
      else (case tick ev st of (failure, st1) \<Rightarrow>
      (case HasMany (sinkDBCS st1) failure (absentBatches ! i) of
         Inl err \<Rightarrow> (Some (Inl err), st1)
       | Inr b \<Rightarrow>
      (if length b > 0
       then (case getCmp ev b nextAbsent st1 of
               (Inl err, st2) \<Rightarrow> (Some (Inl err), st2)
             | (Inr nextAbsent2, st2) \<Rightarrow>
                 if int (length nextAbsent2) \<ge> maxBatch
                 then (case limitToNewChunks nextAbsent2 (downloaded st2) (downlaoded st2) maxBatch of
                         Inl err \<Rightarrow> (Some (Inl err), st2)
                       | Inr (newNumAbsent, newBatches, dlt) \<Rightarrow>
                           batchesLoop n ev 0 (absentBatches[i := b]) [] (st2\<lparr>downlaoded := dlt\<rparr>))
                 else batchesLoop n ev (Suc i) (absentBatches[i := b]) nextAbsent2 st2)
       else batchesLoop n ev (Suc i) (absentBatches[i := b]) nextAbsent st1))))"

fun levelsLoop ::
  "nat \<Rightarrow> env \<Rightarrow> int \<Rightarrow> hashset \<Rightarrow> pstate \<Rightarrow> (error option) option \<times> pstate" where
  "levelsLoop 0 ev numAbsent absent st = (None, st)"
| "levelsLoop (Suc n) ev numAbsent absent st =
     (if \<not> numAbsent > 0 then (Some None, st)
      else (case limitToNewChunks absent (downloaded st) (downlaoded st) maxBatch of
         Inl err \<Rightarrow> (Some (Some err), st)
       | Inr (numAbsent', absentBatches, dlt) \<Rightarrow>
           (case batchesLoop n ev 0 absentBatches [] (st\<lparr>downlaoded := dlt\<rparr>) of
              (None, st1) \<Rightarrow> (None, st1)
            | (Some (Inl err), st1) \<Rightarrow> (Some (Some err), st1)
            | (Some (Inr nextAbsent), st1) \<Rightarrow> levelsLoop n ev numAbsent' nextAbsent st1)))"

text \<open>The whole goroutine: acquire the semaphore, run the levels, send the last writer
  when it is there and holds a chunk, close the channel.\<close>

definition pullDriver :: "nat \<Rightarrow> env \<Rightarrow> pstate \<Rightarrow> (error option) option \<times> pstate" where
  "pullDriver n ev st =
     (case tick ev st of
        (Some err, st1) \<Rightarrow> (Some (Some err), st1)
      | (None, st1) \<Rightarrow>
          (let absent = InsertAll [] (hashes st1) in
           case levelsLoop n ev (int (length absent)) absent st1 of
             (None, st2) \<Rightarrow> (None, st2)
           | (Some (Some err), st2) \<Rightarrow> (Some (Some err), st2)
           | (Some None, st2) \<Rightarrow>
               (case wr st2 of
                  None \<Rightarrow> (Some None, st2\<lparr>chan_closed := True\<rparr>)
                | Some w \<Rightarrow>
                    if ChunkCount w > 0
                    then (case tick ev st2 of
                            (Some err, st3) \<Rightarrow> (Some (Some err), st3)
                          | (None, st3) \<Rightarrow>
                              (Some None, st3\<lparr>completedTables := completedTables st3 @ [w],
                                               chan_closed := True\<rparr>))
                    else (Some None, st2\<lparr>chan_closed := True\<rparr>))))"

text \<open>The state in which \<open>Pull\<close> starts on a puller.\<close>

definition start :: "Puller \<Rightarrow> pstate" where
  "start p = Puller.extend p
     \<lparr>clock = 0, fetch_calls = [], completedTables = [], chan_closed = False, next_file = 1\<rparr>"

section \<open>Uploading the completed table files\<close>

text \<open>
  The first goroutine of \<open>Pull\<close>, \<open>processCompletedTables\<close>, and
  \<open>uploadTempTableFile\<close>.

  Its state: the statistics, whether the temp directory is there, the temp files present in
  it, the files
  \<open>Remove\<close> was called on, the calls made to the sink so far, and the number of
  semaphore releases. A call to the sink is a \<open>WriteTableFile\<close> with its id, chunk
  count, content hash and result, or an \<open>AddTableFilesToManifest\<close> with its map
  (an association list) and result.
\<close>

datatype sink_call =
    WriteTableFileCall string int "byte list" "error option"
  | AddTableFilesToManifestCall "(string \<times> int) list" "error option"

record cstate =
  c_stats :: stats
  c_clock :: nat
  tempdir_present :: bool
  c_files :: "nat list"
  remove_calls :: "nat list"
  sink_calls :: "sink_call list"
  sema_released :: nat

text \<open>
  Its surroundings: \<open>sink_table_file_store\<close> says whether the sink implements
  \<open>nbs.TableFileStore\<close> (the type assertion panics when it does not);
  \<open>cfaults\<close> says for each point that can fail from outside whether
  it does (\<open>Finish\<close>, \<open>Remove\<close>, \<open>AddTableFilesToManifest\<close>);
  \<open>table_id\<close>, \<open>table_md5\<close> and \<open>index_len\<close> are the id, the MD5 and the
  length of index and footer that \<open>Finish\<close> computes from the chunks written;
  \<open>upload_script\<close> is what the sink does in its n-th \<open>WriteTableFile\<close>: each
  attempt calls the body callback, whose \<open>Reader()\<close> fails or not, and reads a number
  of bytes from the reader; then the call returns its result.
\<close>

record cenv =
  sink_table_file_store :: bool
  cfaults :: "nat \<Rightarrow> error option"
  table_id :: "CompressedChunk list \<Rightarrow> string"
  table_md5 :: "CompressedChunk list \<Rightarrow> byte list"
  index_len :: "CompressedChunk list \<Rightarrow> nat"
  upload_script :: "nat \<Rightarrow> (error option \<times> nat) list \<times> error option"

definition ctick :: "cenv \<Rightarrow> cstate \<Rightarrow> error option \<times> cstate" where
  "ctick ev st = (cfaults ev (c_clock st), st\<lparr>c_clock := Suc (c_clock st)\<rparr>)"

text \<open>Modelled from the spec: \<open>Finish\<close>, \<open>GetMD5\<close> and \<open>Reader\<close> of the table-file
  writer (section 4.4). \<open>Finish\<close> writes index and footer and returns the id, a
  function of the chunk sequence; \<open>Reader\<close> gives a new handle at the start of the
  file each time.\<close>

definition Finish ::
  "cenv \<Rightarrow> error option \<Rightarrow> CmpChunkTableWriter \<Rightarrow> error + string \<times> CmpChunkTableWriter" where
  "Finish ev failure w =
     (case failure of
        Some err \<Rightarrow> Inl err
      | None \<Rightarrow> Inr (table_id ev (w_chunks w),
                     w\<lparr>w_finished := True, w_trailer := index_len ev (w_chunks w)\<rparr>))"

definition GetMD5 :: "cenv \<Rightarrow> CmpChunkTableWriter \<Rightarrow> byte list" where
  "GetMD5 ev w = table_md5 ev (w_chunks w)"

record reader =
  r_file :: nat
  r_pos :: nat

definition Reader :: "CmpChunkTableWriter \<Rightarrow> error option \<Rightarrow> error + reader" where
  "Reader w failure =
     (case failure of Some err \<Rightarrow> Inl err | None \<Rightarrow> Inr \<lparr>r_file = w_file w, r_pos = 0\<rparr>)"

record tempTblFile =
  tf_id :: string
  tf_read :: CmpChunkTableWriter
  numChunks :: int
  chunksLen :: uint64
  contentLen :: uint64
  contentHash :: "byte list"

text \<open>The body callback that \<open>uploadTempTableFile\<close> passes to \<open>WriteTableFile\<close>.
  It closes over \<open>localUploaded\<close> and the statistics, which are its state here.\<close>

definition open_body ::
  "tempTblFile \<Rightarrow> error option \<Rightarrow> uint64 \<times> stats \<Rightarrow> (error + reader \<times> uint64) \<times> uint64 \<times> stats" where
  "open_body tmpTblFile failure ls =
     (case ls of (localUploaded, s) \<Rightarrow>
      case Reader (tf_read tmpTblFile) failure of
        Inl err \<Rightarrow> (Inl err, (localUploaded, s))
      | Inr rc \<Rightarrow>
          if localUploaded = 0
          then (Inr (rc, contentLen tmpTblFile),
                (localUploaded,
                 s\<lparr>bufferedSendBytes := bufferedSendBytes s
                      + (contentLen tmpTblFile - chunksLen tmpTblFile)\<rparr>))
          else (Inr (rc, contentLen tmpTblFile),
                (0, s\<lparr>bufferedSendBytes := bufferedSendBytes s + localUploaded\<rparr>)))"

text \<open>Reading \<open>n\<close> bytes through the two nested \<open>countingReader\<close>s.\<close>

definition counting_read :: "nat \<Rightarrow> uint64 \<times> stats \<Rightarrow> uint64 \<times> stats" where
  "counting_read n ls =
     (case ls of (localUploaded, s) \<Rightarrow>
        (localUploaded + of_nat n, s\<lparr>finishedSendBytes := finishedSendBytes s + of_nat n\<rparr>))"

text \<open>Modelled from the spec: the sink's \<open>WriteTableFile\<close> (section 4.5), which may
  call the body callback more than once. It runs the attempts of its script, stops with
  the callback's error when the callback fails, and returns the script's result.\<close>

fun sink_attempts ::
  "tempTblFile \<Rightarrow> (error option \<times> nat) list \<Rightarrow> uint64 \<times> stats \<Rightarrow> error option \<times> uint64 \<times> stats" where
  "sink_attempts f [] ls = (None, ls)"
| "sink_attempts f ((failure, n) # rest) ls =
     (case open_body f failure ls of
        (Inl err, ls') \<Rightarrow> (Some err, ls')
      | (Inr rc, ls') \<Rightarrow> sink_attempts f rest (counting_read n ls'))"

definition WriteTableFile ::
  "(error option \<times> nat) list \<times> error option \<Rightarrow> tempTblFile \<Rightarrow> uint64 \<times> stats
     \<Rightarrow> error option \<times> uint64 \<times> stats" where
  "WriteTableFile script f ls =
     (case sink_attempts f (fst script) ls of
        (Some err, ls') \<Rightarrow> (Some err, ls')
      | (None, ls') \<Rightarrow> (snd script, ls'))"

definition num_uploads :: "sink_call list \<Rightarrow> nat" where
  "num_uploads calls =
     length (filter (\<lambda>c. case c of WriteTableFileCall i n h r \<Rightarrow> True | _ \<Rightarrow> False) calls)"

text \<open>\<open>uploadTempTableFile\<close>: the deferred \<open>Remove\<close> runs on every return, also
  when the type assertion on the sink panics, and its error is dropped.\<close>

definition uploadTempTableFile :: "cenv \<Rightarrow> tempTblFile \<Rightarrow> cstate \<Rightarrow> error option \<times> cstate" where
  "uploadTempTableFile ev tmpTblFile st =
     (case (if \<not> sink_table_file_store ev
            then (Some (Panic ''interface conversion''), st)
            else (case WriteTableFile (upload_script ev (num_uploads (sink_calls st))) tmpTblFile
                         (0, c_stats st) of
                    (res, (localUploaded, s)) \<Rightarrow>
                      (res, st\<lparr>c_stats := s,
                               sink_calls := sink_calls st
                                 @ [WriteTableFileCall (tf_id tmpTblFile) (numChunks tmpTblFile)
                                      (contentHash tmpTblFile) res]\<rparr>))) of
        (res, st1) \<Rightarrow>
          (case ctick ev st1 of
             (removeErr, st2) \<Rightarrow>
               (res, st2\<lparr>remove_calls := remove_calls st2 @ [w_file (tf_read tmpTblFile)],
                         c_files := (if removeErr = None
                                     then removeAll (w_file (tf_read tmpTblFile)) (c_files st2)
                                     else c_files st2)\<rparr>)))"

text \<open>What the \<open>select\<close> of \<open>processCompletedTables\<close> meets, in order: a writer
  received from the channel, the channel closed and drained, or the context done with
  its error. When the events end, the goroutine waits for ever: the result is \<open>None\<close>.
  \<open>Some None\<close> is the return of nil.\<close>

datatype chan_event = Recv CmpChunkTableWriter | Closed | CtxDone error

fun completedTablesLoop ::
  "cenv \<Rightarrow> chan_event list \<Rightarrow> (string \<times> int) list \<Rightarrow> cstate \<Rightarrow> (error option) option \<times> cstate" where
  "completedTablesLoop ev [] fileIdToNumChunks st = (None, st)"
| "completedTablesLoop ev (CtxDone err # evs) fileIdToNumChunks st = (Some (Some err), st)"
| "completedTablesLoop ev (Closed # evs) fileIdToNumChunks st =
     (if \<not> sink_table_file_store ev then (Some (Some (Panic ''interface conversion'')), st)
      else (case ctick ev st of
        (res, st1) \<Rightarrow>
          (Some res,
           st1\<lparr>sink_calls := sink_calls st1 @ [AddTableFilesToManifestCall fileIdToNumChunks res]\<rparr>)))"
| "completedTablesLoop ev (Recv w # evs) fileIdToNumChunks st =
     (let st0 = st\<lparr>sema_released := Suc (sema_released st)\<rparr>;
          chunksLen0 = ContentLength w in
      case ctick ev st0 of
        (failure, st1) \<Rightarrow>
          (case Finish ev failure w of
             Inl err \<Rightarrow> (Some (Some err), st1)
           | Inr (tid, w') \<Rightarrow>
               (let ttf = \<lparr>tf_id = tid, tf_read = w', numChunks = ChunkCount w',
                           chunksLen = chunksLen0, contentLen = ContentLength w',
                           contentHash = GetMD5 ev w'\<rparr> in
                case uploadTempTableFile ev ttf st1 of
                  (Some err, st2) \<Rightarrow> (Some (Some err), st2)
                | (None, st2) \<Rightarrow>
                    completedTablesLoop ev evs
                      (AList.update tid (numChunks ttf) fileIdToNumChunks) st2)))"

definition processCompletedTables ::
  "cenv \<Rightarrow> chan_event list \<Rightarrow> cstate \<Rightarrow> (error option) option \<times> cstate" where
  "processCompletedTables ev evs st = completedTablesLoop ev evs [] st"

section \<open>Notions used in the statements\<close>

text \<open>The call a successful upload of the writer \<open>w\<close> leaves at the sink, and the map
  from table-file id to chunk count that the uploads of \<open>ws\<close> build up.\<close>

definition upload_ok_call :: "cenv \<Rightarrow> CmpChunkTableWriter \<Rightarrow> sink_call" where
  "upload_ok_call ev w =
     WriteTableFileCall (table_id ev (w_chunks w)) (ChunkCount w) (table_md5 ev (w_chunks w)) None"

definition accumulate ::
  "cenv \<Rightarrow> (string \<times> int) list \<Rightarrow> CmpChunkTableWriter list \<Rightarrow> (string \<times> int) list" where
  "accumulate ev m ws =
     foldl (\<lambda>acc w. AList.update (table_id ev (w_chunks w)) (ChunkCount w) acc) m ws"

text \<open>\<open>sent_ok st st'\<close>: from \<open>st\<close> to \<open>st'\<close> the threshold \<open>chunksPerTF\<close> is
  unchanged and every writer sent on the completed-tables channel held at least that many
  chunks when it was sent.\<close>

definition sent_ok :: "pstate \<Rightarrow> pstate \<Rightarrow> bool" where
  "sent_ok st st' =
     (chunksPerTF st' = chunksPerTF st \<and>
      (\<exists>new. completedTables st' = completedTables st @ new
             \<and> list_all (\<lambda>w. chunksPerTF st \<le> ChunkCount w) new))"



section \<open>Concrete stores, chunks and surroundings\<close>

definition ex_src :: chunkstore where
  "ex_src = \<lparr>cs_version = ''1'', cs_chunks = [1, 2], cs_compressed = True,
             cs_logging = False, cs_logger_set = False\<rparr>"

definition ex_sink :: chunkstore where
  "ex_sink = \<lparr>cs_version = ''1'', cs_chunks = [], cs_compressed = True,
              cs_logging = False, cs_logger_set = False\<rparr>"

definition ex_ctor_env :: ctor_env where
  "ex_ctor_env = \<lparr>src_has_many_err = None, sink_has_many_err = None, new_writer_err = None,
                  lookup_PUSH_LOG = None, open_file_err = None\<rparr>"

definition ex_walk_leaf :: WalkAddrs where
  "ex_walk_leaf = (\<lambda>c. ([], None))"

definition ex_chunk :: "addr \<Rightarrow> CompressedChunk" where
  "ex_chunk h = \<lparr>H = h, FullCompressedChunk = [1, 2, 3], CompressedData = [1, 2]\<rparr>"

definition ex_writer :: "nat \<Rightarrow> addr list \<Rightarrow> CmpChunkTableWriter" where
  "ex_writer f hs = \<lparr>w_file = f, w_chunks = map ex_chunk hs, w_finished = False, w_trailer = 0\<rparr>"

definition ex_table_id :: "CompressedChunk list \<Rightarrow> string" where
  "ex_table_id cs = map (\<lambda>c. if H c = 1 then CHR ''a'' else CHR ''b'') cs"

definition ex_cenv :: cenv where
  "ex_cenv = \<lparr>sink_table_file_store = True, cfaults = (\<lambda>t. None), table_id = ex_table_id, table_md5 = (\<lambda>cs. []),
              index_len = (\<lambda>cs. 4), upload_script = (\<lambda>n. ([(None, 7)], None))\<rparr>"

definition ex_cstate :: cstate where
  "ex_cstate = \<lparr>c_stats = zero_stats, c_clock = 0, tempdir_present = True, c_files = [1, 2],
                remove_calls = [],
                sink_calls = [], sema_released = 0\<rparr>"

definition ex_events :: "chan_event list" where
  "ex_events = [Recv (ex_writer 1 [1]), Recv (ex_writer 2 [2, 2]), Closed]"

definition ex_ttf :: tempTblFile where
  "ex_ttf = \<lparr>tf_id = ''a'', tf_read = ex_writer 1 [1], numChunks = 1, chunksLen = 3,
             contentLen = 7, contentHash = []\<rparr>"


definition ex_env :: env where
  "ex_env = \<lparr>faults = (\<lambda>t. None), GetManyCompressed = (\<lambda>n b. (map ex_chunk b, None)),
             ToChunk = (\<lambda>c. Inr \<lparr>c_hash = H c, c_data = []\<rparr>)\<rparr>"

definition ex_walk_tree :: WalkAddrs where
  "ex_walk_tree c =
     (if c_hash c = 1 then [(2, False), (3, True)]
      else if c_hash c = 2 then [(4, True), (5, True)] else [], None)"

definition ex_walk_cycle :: WalkAddrs where
  "ex_walk_cycle c = ([(1, False)], None)"

definition ex_pstate :: "WalkAddrs \<Rightarrow> int \<Rightarrow> pstate" where
  "ex_pstate w k = \<lparr>waf = w, srcChunkStore = ex_src\<lparr>cs_chunks := [1, 2, 3, 4, 5]\<rparr>, sinkDBCS = ex_sink,
     hashes = [1], downloaded = [], downlaoded = [],
     wr = Some (NewCmpChunkTableWriter 0), tempDir = ''tmp'', chunksPerTF = k, pushLog = None,
     statsCh = False, pstats = zero_stats,
     clock = 0, fetch_calls = [], completedTables = [], chan_closed = False, next_file = 1\<rparr>"

text \<open>The accidental cycle: the source holds the single chunk 1, whose only reference is 1
  itself; the root is 1 and the sink is empty. \<open>cyc_inv\<close> holds of the states the pull
  goes through on it.\<close>

definition cycle_env :: env where
  "cycle_env = \<lparr>faults = (\<lambda>t. None),
                GetManyCompressed = (\<lambda>n b. (map ex_chunk (filter (\<lambda>h. h = 1) b), None)),
                ToChunk = (\<lambda>c. Inr \<lparr>c_hash = H c, c_data = []\<rparr>)\<rparr>"

definition cycle_puller :: "int \<Rightarrow> Puller" where
  "cycle_puller k = \<lparr>waf = ex_walk_cycle, srcChunkStore = ex_src\<lparr>cs_chunks := [1]\<rparr>,
     sinkDBCS = ex_sink, hashes = [1], downloaded = [], downlaoded = [],
     wr = Some (NewCmpChunkTableWriter 0), tempDir = ''tmp'', chunksPerTF = k, pushLog = None,
     statsCh = False, pstats = zero_stats\<rparr>"

definition cyc_inv :: "pstate \<Rightarrow> bool" where
  "cyc_inv st = (waf st = ex_walk_cycle \<and> cs_chunks (sinkDBCS st) = [] \<and> downloaded st = []
                 \<and> (\<exists>w. wr st = Some w \<and> \<not> w_finished w))"

text \<open>Three sources: one that sends every chunk twice, one that sends nothing, and chunks
  that do not decompress.\<close>

definition ex_dup_env :: env where
  "ex_dup_env = ex_env\<lparr>GetManyCompressed := (\<lambda>n b. (map ex_chunk (b @ b), None))\<rparr>"

definition ex_short_env :: env where
  "ex_short_env = ex_env\<lparr>GetManyCompressed := (\<lambda>n b. ([], None))\<rparr>"

definition ex_undecodable_env :: env where
  "ex_undecodable_env = ex_env\<lparr>ToChunk := (\<lambda>c. Inl (External 9))\<rparr>"

text \<open>A graph without cycle: 1 refers to 2 and 3, and 2 refers to 3.\<close>

definition ex_walk_dag :: WalkAddrs where
  "ex_walk_dag c =
     (if c_hash c = 1 then [(2, False), (3, True)]
      else if c_hash c = 2 then [(3, True)] else [], None)"



section \<open>Hash sets and stores\<close>

lemma set_Insert: "set (Insert h s) = insert h (set s)"
  by (auto simp: Insert_def Has_def)

lemma set_foldl_Insert: "set (foldl (\<lambda>acc h. Insert h acc) s hs) = set s \<union> set hs"
  by (induction hs arbitrary: s) (auto simp: set_Insert)

lemma set_NewHashSet: "set (NewHashSet hs) = set hs"
  by (simp add: NewHashSet_def set_foldl_Insert)


lemma HasMany_filter:
  "HasMany cs failure hs = Inr b \<Longrightarrow> b = filter (\<lambda>h. h \<notin> set (cs_chunks cs)) hs"
  by (auto simp: HasMany_def split: option.splits)

section \<open>The startup checks of the constructor\<close>

text \<open>
  C3 (as amended). The constructor checks in this order, and fetches no chunk: when the
  source's \<open>HasMany\<close> succeeds and the source lacks a root, it fails with the error
  \<open>errors.New("not found")\<close>; otherwise, when the sink's \<open>HasMany\<close> succeeds and the
  sink lacks none of the roots, it fails with the sentinel \<open>ErrDBUpToDate\<close>; otherwise,
  when the versions differ, it fails with a \<open>fmt.Errorf\<close> error that carries both
  versions; otherwise, when the source does not implement the compressed-chunk
  interface, it fails with the sentinel \<open>ErrIncompatibleSourceChunkStore\<close>.
\<close>

theorem startup_checks_order:
  "(src_has_many_err ev = None \<and> \<not> set hs \<subseteq> set (cs_chunks srcCS)
      \<longrightarrow> NewPuller ev tmpDir n srcCS sinkCS w hs sc = Inl (ErrorsNew ''not found''))
   \<and> (src_has_many_err ev = None \<and> set hs \<subseteq> set (cs_chunks srcCS)
      \<and> sink_has_many_err ev = None \<and> set hs \<subseteq> set (cs_chunks sinkCS)
      \<longrightarrow> NewPuller ev tmpDir n srcCS sinkCS w hs sc = Inl ErrDBUpToDate)
   \<and> (src_has_many_err ev = None \<and> set hs \<subseteq> set (cs_chunks srcCS)
      \<and> sink_has_many_err ev = None \<and> \<not> set hs \<subseteq> set (cs_chunks sinkCS)
      \<and> Version srcCS \<noteq> Version sinkCS
      \<longrightarrow> NewPuller ev tmpDir n srcCS sinkCS w hs sc
            = Inl (FmtErrorf version_fmt [Version srcCS, Version sinkCS]))
   \<and> (src_has_many_err ev = None \<and> set hs \<subseteq> set (cs_chunks srcCS)
      \<and> sink_has_many_err ev = None \<and> \<not> set hs \<subseteq> set (cs_chunks sinkCS)
      \<and> Version srcCS = Version sinkCS \<and> \<not> cs_compressed srcCS
      \<longrightarrow> NewPuller ev tmpDir n srcCS sinkCS w hs sc = Inl ErrIncompatibleSourceChunkStore)"
  by (auto simp: NewPuller_def HasMany_def Size_def filter_empty_conv set_NewHashSet)

theorem startup_checks_order_witness:
  "NewPuller ex_ctor_env ''tmp'' 2 ex_src ex_sink ex_walk_leaf [1, 7] False
     = Inl (ErrorsNew ''not found'')
   \<and> NewPuller ex_ctor_env ''tmp'' 2 ex_src ex_src ex_walk_leaf [1, 2] False = Inl ErrDBUpToDate
   \<and> NewPuller ex_ctor_env ''tmp'' 2 ex_src (ex_sink\<lparr>cs_version := ''2''\<rparr>) ex_walk_leaf [1] False
     = Inl (FmtErrorf version_fmt [''1'', ''2''])
   \<and> NewPuller ex_ctor_env ''tmp'' 2 (ex_src\<lparr>cs_compressed := False\<rparr>) ex_sink ex_walk_leaf [1] False
     = Inl ErrIncompatibleSourceChunkStore"
  using startup_checks_order [of ex_ctor_env "[1, 7]" ex_src "''tmp''" 2 ex_sink ex_walk_leaf False]
    startup_checks_order [of ex_ctor_env "[1, 2]" ex_src "''tmp''" 2 ex_src ex_walk_leaf False]
    startup_checks_order [of ex_ctor_env "[1]" ex_src "''tmp''" 2 "ex_sink\<lparr>cs_version := ''2''\<rparr>"
      ex_walk_leaf False]
    startup_checks_order [of ex_ctor_env "[1]" "ex_src\<lparr>cs_compressed := False\<rparr>" "''tmp''" 2
      ex_sink ex_walk_leaf False]
  by (simp add: ex_ctor_env_def ex_src_def ex_sink_def Version_def)

text \<open>
  C3 (as stated) fails: the error for a root that the source lacks, and the error for
  differing versions, are not among the error variables the package declares; the second
  one changes with the versions.
\<close>

theorem startup_errors_not_sentinels:
  "NewPuller ex_ctor_env ''tmp'' 2 ex_src ex_sink ex_walk_leaf [7] False
     = Inl (ErrorsNew ''not found'')
   \<and> ErrorsNew ''not found'' \<notin> sentinels
   \<and> NewPuller ex_ctor_env ''tmp'' 2 ex_src (ex_sink\<lparr>cs_version := ''2''\<rparr>) ex_walk_leaf [1] False
     = Inl (FmtErrorf version_fmt [''1'', ''2''])
   \<and> NewPuller ex_ctor_env ''tmp'' 2 ex_src (ex_sink\<lparr>cs_version := ''3''\<rparr>) ex_walk_leaf [1] False
     = Inl (FmtErrorf version_fmt [''1'', ''3''])
   \<and> FmtErrorf version_fmt [''1'', ''2''] \<notin> sentinels"
  by (simp add: NewPuller_def HasMany_def NewHashSet_def Insert_def Has_def Size_def Version_def
        ex_ctor_env_def ex_src_def ex_sink_def sentinels_def)

section \<open>The push log\<close>

text \<open>
  C10. When \<open>PUSH_LOG\<close> is set to a string that is \<open>true\<close> in lower case and
  opening \<open>push.log\<close> fails, the constructor returns what it would return had the
  open succeeded, but with a nil logger: a puller and no error whenever the rest of the
  constructor succeeds. Every \<open>Logf\<close> on that puller leaves the log as it is.
\<close>

theorem push_log_open_failure_swallowed:
  assumes "lookup_PUSH_LOG ev = Some dbg" and "ToLower dbg = ''true''"
    and "open_file_err ev = Some e"
    and "NewPuller (ev\<lparr>open_file_err := None\<rparr>) tmpDir n srcCS sinkCS w hs sc = Inr p0"
  shows "NewPuller ev tmpDir n srcCS sinkCS w hs sc = Inr (p0\<lparr>pushLog := None\<rparr>)
         \<and> Logf (p0\<lparr>pushLog := None\<rparr>) fmt args lg = lg"
  using assms
  by (auto simp: NewPuller_def Logf_def open_push_log_def
           split: sum.splits if_splits option.splits)

theorem push_log_open_failure_swallowed_witness:
  "\<exists>p. NewPuller (ex_ctor_env\<lparr>lookup_PUSH_LOG := Some ''TRUE'', open_file_err := Some (External 13)\<rparr>)
          ''tmp'' 2 ex_src ex_sink ex_walk_leaf [1] False = Inr p
       \<and> pushLog p = None \<and> Logf p ''sent %d'' [''1''] [] = []"
proof -
  let ?ev = "ex_ctor_env\<lparr>lookup_PUSH_LOG := Some ''TRUE'', open_file_err := Some (External 13)\<rparr>"
  have h1: "lookup_PUSH_LOG ?ev = Some ''TRUE''" by simp
  have h2: "ToLower ''TRUE'' = ''true''" by (simp add: ToLower_def to_lower_char_def)
  have h3: "open_file_err ?ev = Some (External 13)" by simp
  have "\<exists>p0. NewPuller (?ev\<lparr>open_file_err := None\<rparr>) ''tmp'' 2 ex_src ex_sink ex_walk_leaf [1] False
          = Inr p0"
    by (simp add: NewPuller_def HasMany_def NewHashSet_def Insert_def Has_def Size_def Version_def
          ex_ctor_env_def ex_src_def ex_sink_def)
  then obtain p0 where h4:
    "NewPuller (?ev\<lparr>open_file_err := None\<rparr>) ''tmp'' 2 ex_src ex_sink ex_walk_leaf [1] False = Inr p0"
    by blast
  from push_log_open_failure_swallowed [OF h1 h2 h3 h4, of "''sent %d''" "[''1'']" "[]"]
  show ?thesis by auto
qed

section \<open>The manifest commit\<close>

lemmas consumer_defs = processCompletedTables_def uploadTempTableFile_def WriteTableFile_def
  open_body_def Reader_def counting_read_def ctick_def Finish_def GetMD5_def ChunkCount_def
  ContentLength_def num_uploads_def

lemmas ex_consumer_defs = ex_cenv_def ex_cstate_def ex_writer_def ex_chunk_def ex_table_id_def
  ex_events_def zero_stats_def

lemmas driver_defs = pullDriver_def getCmp_def processChunk_def rotate_def tick_def
  limitToNewChunks_def HasMany_def collect_refs_def AddCmpChunk_def ChunkCount_def
  NewCmpChunkTableWriter_def InsertAll_def Insert_def Has_def Remove_def maxBatch_def

lemmas ex_driver_defs = ex_env_def ex_walk_tree_def ex_pstate_def ex_chunk_def ex_sink_def
  ex_src_def zero_stats_def

lemma upload_sink_calls:
  "uploadTempTableFile ev f st = (res, st') \<Longrightarrow>
     sink_calls st' = sink_calls st
       @ (if sink_table_file_store ev
          then [WriteTableFileCall (tf_id f) (numChunks f) (contentHash f) res] else [])
     \<and> (res = None \<longrightarrow> sink_table_file_store ev)"
  by (auto simp: uploadTempTableFile_def ctick_def Let_def split: prod.splits if_splits)

lemma completedTablesLoop_calls:
  "completedTablesLoop ev evs m st = (r, st') \<Longrightarrow>
     \<exists>new. sink_calls st' = sink_calls st @ new \<and>
       (\<forall>mm res. AddTableFilesToManifestCall mm res \<in> set new \<longrightarrow>
          (\<exists>ws rest. evs = map Recv ws @ Closed # rest
             \<and> new = map (upload_ok_call ev) ws @ [AddTableFilesToManifestCall mm res]
             \<and> mm = accumulate ev m ws \<and> r = Some res))"
proof (induction ev evs m st arbitrary: r st' rule: completedTablesLoop.induct)
  case (1 ev m st)
  then show ?case by simp
next
  case (2 ev err evs m st)
  then show ?case by simp
next
  case (3 ev evs m st)
  show ?case
  proof (cases "sink_table_file_store ev")
    case False
    with 3 show ?thesis by simp
  next
    case True
    with 3 have "sink_calls st' = sink_calls st
                   @ [AddTableFilesToManifestCall m (cfaults ev (c_clock st))]"
      and "r = Some (cfaults ev (c_clock st))"
      by (auto simp: ctick_def)
    then show ?thesis
      by (auto simp: accumulate_def intro!: exI [of _ "[]"])
  qed
next
  case (4 ev w evs m st)
  let ?st0 = "st\<lparr>sema_released := Suc (sema_released st)\<rparr>"
  obtain failure st1 where t: "ctick ev ?st0 = (failure, st1)" by (cases "ctick ev ?st0")
  have s1: "sink_calls st1 = sink_calls st" using t by (auto simp: ctick_def)
  show ?case
  proof (cases "Finish ev failure w")
    case (Inl err)
    with 4(2) t s1 show ?thesis by (simp add: Let_def)
  next
    case (Inr pr)
    obtain tid w' where pr: "pr = (tid, w')" by (cases pr)
    have tid: "tid = table_id ev (w_chunks w)" and w': "w_chunks w' = w_chunks w"
      using Inr pr by (auto simp: Finish_def split: option.splits)
    let ?ttf = "\<lparr>tf_id = tid, tf_read = w', numChunks = ChunkCount w',
                 chunksLen = ContentLength w, contentLen = ContentLength w',
                 contentHash = GetMD5 ev w'\<rparr>"
    obtain ures st2 where u: "uploadTempTableFile ev ?ttf st1 = (ures, st2)"
      by (cases "uploadTempTableFile ev ?ttf st1")
    have s2: "sink_calls st2 = sink_calls st
                @ (if sink_table_file_store ev
                   then [WriteTableFileCall tid (ChunkCount w) (table_md5 ev (w_chunks w)) ures]
                   else [])"
      and tfs: "ures = None \<longrightarrow> sink_table_file_store ev"
      using upload_sink_calls [OF u] s1 w' by (simp_all add: GetMD5_def ChunkCount_def)
    show ?thesis
    proof (cases ures)
      case (Some err)
      with 4(2) t Inr pr u s2 show ?thesis by (simp add: Let_def)
    next
      case None
      have rec: "completedTablesLoop ev evs (AList.update tid (ChunkCount w') m) st2 = (r, st')"
        using 4(2) t Inr pr u None by (simp add: Let_def)
      from 4(1) [OF refl refl t [symmetric] Inr pr [symmetric] refl u [symmetric] None, of r st'] rec
      obtain new where n1: "sink_calls st' = sink_calls st2 @ new"
        and n2: "\<forall>mm res. AddTableFilesToManifestCall mm res \<in> set new \<longrightarrow>
          (\<exists>ws rest. evs = map Recv ws @ Closed # rest
             \<and> new = map (upload_ok_call ev) ws @ [AddTableFilesToManifestCall mm res]
             \<and> mm = accumulate ev (AList.update tid (ChunkCount w') m) ws \<and> r = Some res)"
        by auto
      have cw: "ChunkCount w' = ChunkCount w" using w' by (simp add: ChunkCount_def)
      have head: "WriteTableFileCall tid (ChunkCount w) (table_md5 ev (w_chunks w)) ures
                    = upload_ok_call ev w"
        using None tid by (simp add: upload_ok_call_def)
      show ?thesis
      proof (intro exI [of _ "upload_ok_call ev w # new"] conjI allI impI)
        show "sink_calls st' = sink_calls st @ upload_ok_call ev w # new"
          using n1 s2 head tfs None by simp
      next
        fix mm res
        assume "AddTableFilesToManifestCall mm res \<in> set (upload_ok_call ev w # new)"
        then have "AddTableFilesToManifestCall mm res \<in> set new"
          by (simp add: upload_ok_call_def)
        with n2 obtain ws rest where e: "evs = map Recv ws @ Closed # rest"
          and n: "new = map (upload_ok_call ev) ws @ [AddTableFilesToManifestCall mm res]"
          and m: "mm = accumulate ev (AList.update tid (ChunkCount w') m) ws" and r: "r = Some res"
          by blast
        show "\<exists>ws rest. Recv w # evs = map Recv ws @ Closed # rest
             \<and> upload_ok_call ev w # new
                 = map (upload_ok_call ev) ws @ [AddTableFilesToManifestCall mm res]
             \<and> mm = accumulate ev m ws \<and> r = Some res"
          using e n m r cw tid
          by (intro exI [of _ "w # ws"] exI [of _ rest]) (simp add: accumulate_def)
      qed
    qed
  qed
qed

text \<open>
  C1. Whenever \<open>processCompletedTables\<close> calls \<open>AddTableFilesToManifest\<close>, the
  channel had been closed after some writers \<open>ws\<close>, the calls it made to the sink are
  exactly one successful \<open>WriteTableFile\<close> for each of these writers, in order,
  followed by that one manifest call, and the map it passes is the one accumulated from
  the ids and chunk counts of \<open>ws\<close>. So no manifest call happens before every table
  file received has been uploaded with success, and there is a single one, at the end.
\<close>

theorem manifest_after_all_uploads:
  assumes "processCompletedTables ev evs st = (r, st')"
    and "AddTableFilesToManifestCall mm res \<in> set (drop (length (sink_calls st)) (sink_calls st'))"
  shows "\<exists>ws rest. evs = map Recv ws @ Closed # rest
           \<and> sink_calls st' = sink_calls st @ map (upload_ok_call ev) ws
                                @ [AddTableFilesToManifestCall mm res]
           \<and> mm = accumulate ev [] ws \<and> r = Some res"
proof -
  from assms(1) have "completedTablesLoop ev evs [] st = (r, st')"
    by (simp add: processCompletedTables_def)
  from completedTablesLoop_calls [OF this] obtain new where
    n1: "sink_calls st' = sink_calls st @ new" and
    n2: "\<forall>mm res. AddTableFilesToManifestCall mm res \<in> set new \<longrightarrow>
          (\<exists>ws rest. evs = map Recv ws @ Closed # rest
             \<and> new = map (upload_ok_call ev) ws @ [AddTableFilesToManifestCall mm res]
             \<and> mm = accumulate ev [] ws \<and> r = Some res)"
    by blast
  from assms(2) n1 have "AddTableFilesToManifestCall mm res \<in> set new" by simp
  with n2 n1 show ?thesis by auto
qed

lemma ex_events_run:
  "fst (processCompletedTables ex_cenv ex_events ex_cstate) = Some None
   \<and> sink_calls (snd (processCompletedTables ex_cenv ex_events ex_cstate)) =
       [WriteTableFileCall ''a'' 1 [] None, WriteTableFileCall ''bb'' 2 [] None,
        AddTableFilesToManifestCall [(''a'', 1), (''bb'', 2)] None]
   \<and> c_files (snd (processCompletedTables ex_cenv ex_events ex_cstate)) = []"
  by (simp add: consumer_defs ex_consumer_defs Let_def)

theorem manifest_after_all_uploads_witness:
  "\<exists>ws rest. ex_events = map Recv ws @ Closed # rest
     \<and> sink_calls (snd (processCompletedTables ex_cenv ex_events ex_cstate))
         = sink_calls ex_cstate @ map (upload_ok_call ex_cenv) ws
             @ [AddTableFilesToManifestCall [(''a'', 1), (''bb'', 2)] None]
     \<and> [(''a'', 1), (''bb'', 2)] = accumulate ex_cenv [] ws
     \<and> fst (processCompletedTables ex_cenv ex_events ex_cstate) = Some None"
proof -
  let ?run = "processCompletedTables ex_cenv ex_events ex_cstate"
  have h1: "?run = (fst ?run, snd ?run)" by simp
  have h2: "AddTableFilesToManifestCall [(''a'', 1), (''bb'', 2)] None
              \<in> set (drop (length (sink_calls ex_cstate)) (sink_calls (snd ?run)))"
    using ex_events_run by (simp add: ex_cstate_def)
  from manifest_after_all_uploads [OF h1 h2] ex_events_run show ?thesis by simp
qed

section \<open>Temp files\<close>







section \<open>The body callback of an upload\<close>

text \<open>
  C8 at the failing input. The table file has 7 bytes, 3 of them chunk data. The first
  call of the body callback adds the 4 bytes of index and footer to
  \<open>bufferedSendBytes\<close>. The sink reads nothing and retries: the second call finds
  \<open>localUploaded\<close> at 0 and adds the 4 bytes again, where the bytes read in the
  attempt before are 0. Each call returns a reader at position 0.
\<close>

theorem retry_after_empty_attempt_adds_trailer_again:
  "open_body ex_ttf None (0, zero_stats)
     = (Inr (\<lparr>r_file = 1, r_pos = 0\<rparr>, 7), (0, zero_stats\<lparr>bufferedSendBytes := 4\<rparr>))
   \<and> counting_read 0 (0, zero_stats\<lparr>bufferedSendBytes := 4\<rparr>)
     = (0, zero_stats\<lparr>bufferedSendBytes := 4\<rparr>)
   \<and> open_body ex_ttf None (0, zero_stats\<lparr>bufferedSendBytes := 4\<rparr>)
     = (Inr (\<lparr>r_file = 1, r_pos = 0\<rparr>, 7), (0, zero_stats\<lparr>bufferedSendBytes := 8\<rparr>))"
  by (simp add: open_body_def counting_read_def Reader_def ex_ttf_def ex_writer_def zero_stats_def)

text \<open>What the callback does otherwise: with \<open>localUploaded\<close> at 0 it adds the bytes of
  index and footer; after an attempt that read some bytes it adds those bytes and sets
  \<open>localUploaded\<close> back to 0. Each time the reader is a new one from \<open>Reader()\<close>.\<close>

lemma open_body_first:
  "open_body f None (0, s)
     = (Inr (\<lparr>r_file = w_file (tf_read f), r_pos = 0\<rparr>, contentLen f),
        (0, s\<lparr>bufferedSendBytes := bufferedSendBytes s + (contentLen f - chunksLen f)\<rparr>))"
  by (simp add: open_body_def Reader_def)

lemma open_body_retry:
  "localUploaded \<noteq> 0 \<Longrightarrow>
     open_body f None (localUploaded, s)
       = (Inr (\<lparr>r_file = w_file (tf_read f), r_pos = 0\<rparr>, contentLen f),
          (0, s\<lparr>bufferedSendBytes := bufferedSendBytes s + localUploaded\<rparr>))"
  by (simp add: open_body_def Reader_def)

section \<open>Invariants of the driver\<close>

lemma sent_ok_refl: "sent_ok st st"
  by (simp add: sent_ok_def)

lemma sent_ok_trans: "sent_ok a b \<Longrightarrow> sent_ok b c \<Longrightarrow> sent_ok a c"
  by (auto simp: sent_ok_def)

lemma sent_ok_frame:
  "chunksPerTF b = chunksPerTF a \<Longrightarrow> completedTables b = completedTables a \<Longrightarrow> sent_ok a b"
  by (simp add: sent_ok_def)

lemma tick_sent_ok: "tick ev st = (r, st') \<Longrightarrow> sent_ok st st'"
  by (auto simp: tick_def sent_ok_def)

lemma rotate_sent_ok: "rotate ev st = (r, st') \<Longrightarrow> sent_ok st st'"
  by (auto simp: rotate_def tick_def sent_ok_def split: option.splits if_splits)

lemma processChunk_sent_ok: "processChunk ev c acc st = (r, st') \<Longrightarrow> sent_ok st st'"
  unfolding processChunk_def Let_def
  by (auto simp: tick_def split: prod.splits option.splits sum.splits
           dest!: rotate_sent_ok elim!: sent_ok_trans [rotated] intro!: sent_ok_frame)


lemma packLoop_sent_ok: "packLoop ev cs acc st = (r, st') \<Longrightarrow> sent_ok st st'"
proof (induction cs arbitrary: acc st)
  case Nil
  then show ?case by (simp add: sent_ok_refl)
next
  case (Cons c cs)
  obtain r1 st1 where p: "processChunk ev c acc st = (r1, st1)"
    by (cases "processChunk ev c acc st")
  note s1 = processChunk_sent_ok [OF p]
  show ?case
  proof (cases r1)
    case (Inl err)
    with Cons.prems p s1 show ?thesis by simp
  next
    case (Inr acc')
    with Cons.prems p have "packLoop ev cs acc' st1 = (r, st')" by simp
    from Cons.IH [OF this] s1 show ?thesis by (rule sent_ok_trans [rotated])
  qed
qed

lemma getCmp_sent_ok: "getCmp ev batch nl st = (r, st') \<Longrightarrow> sent_ok st st'"
  unfolding getCmp_def Let_def
  by (auto split: prod.splits sum.splits option.splits if_splits
           dest!: packLoop_sent_ok simp: sent_ok_def)



lemma batchesLoop_rel:
  assumes R_refl: "\<And>s. R s s"
    and R_trans: "\<And>a b c. R a b \<Longrightarrow> R b c \<Longrightarrow> R a c"
    and R_tick: "\<And>s r s'. tick ev s = (r, s') \<Longrightarrow> R s s'"
    and R_get: "\<And>b na s r s'. getCmp ev b na s = (r, s') \<Longrightarrow> P b \<Longrightarrow> R s s'"
    and R_dl: "\<And>s d. R s (s\<lparr>downlaoded := d\<rparr>)"
    and P_filter: "\<And>b f. P b \<Longrightarrow> P (filter f b)"
  shows "batchesLoop n ev i bs na st = (r, st') \<Longrightarrow> list_all P bs \<Longrightarrow> R st st'"
proof (induction n arbitrary: i bs na st)
  case 0
  then show ?case by (simp add: R_refl)
next
  case (Suc n)
  show ?case
  proof (cases "i < length bs")
    case False
    with Suc.prems show ?thesis by (simp add: R_refl)
  next
    case True
    obtain failure st1 where t: "tick ev st = (failure, st1)" by (cases "tick ev st")
    note s1 = R_tick [OF t]
    show ?thesis
    proof (cases "HasMany (sinkDBCS st1) failure (bs ! i)")
      case (Inl err)
      with Suc.prems True t s1 show ?thesis by simp
    next
      case (Inr b)
      have "P (bs ! i)" using Suc.prems(2) True by (simp add: list_all_length)
      then have Pb: "P b" using HasMany_filter [OF Inr] P_filter by simp
      have Pbs: "list_all P (bs[i := b])"
        using Suc.prems(2) Pb by (auto simp: list_all_iff dest!: set_update_subset_insert [THEN subsetD])
      show ?thesis
      proof (cases "length b > 0")
        case False
        with Suc.prems True t Inr
        have "batchesLoop n ev (Suc i) (bs[i := b]) na st1 = (r, st')" by simp
        from s1 Suc.IH [OF this Pbs] show ?thesis by (rule R_trans)
      next
        case b: True
        obtain gr st2 where g: "getCmp ev b na st1 = (gr, st2)"
          by (cases "getCmp ev b na st1")
        have s2: "R st st2" using s1 R_get [OF g Pb] by (rule R_trans)
        show ?thesis
        proof (cases gr)
          case (Inl err)
          with Suc.prems True t Inr b g s2 show ?thesis by simp
        next
          case na2: (Inr nextAbsent2)
          show ?thesis
          proof (cases "int (length nextAbsent2) \<ge> maxBatch")
            case False
            with Suc.prems True t Inr b g na2
            have "batchesLoop n ev (Suc i) (bs[i := b]) nextAbsent2 st2 = (r, st')" by simp
            from s2 Suc.IH [OF this Pbs] show ?thesis by (rule R_trans)
          next
            case big: True
            show ?thesis
            proof (cases "limitToNewChunks nextAbsent2 (downloaded st2) (downlaoded st2) maxBatch")
              case (Inl err)
              with Suc.prems True t Inr b g na2 big s2 show ?thesis by simp
            next
              case lim: (Inr res)
              obtain nn nb dlt where res: "res = (nn, nb, dlt)" by (cases res)
              with Suc.prems True t Inr b g na2 big lim
              have rec: "batchesLoop n ev 0 (bs[i := b]) [] (st2\<lparr>downlaoded := dlt\<rparr>) = (r, st')"
                by simp
              have s3: "R st (st2\<lparr>downlaoded := dlt\<rparr>)" using s2 R_dl by (rule R_trans)
              from s3 Suc.IH [OF rec Pbs] show ?thesis by (rule R_trans)
            qed
          qed
        qed
      qed
    qed
  qed
qed

lemma levelsLoop_rel:
  assumes R_refl: "\<And>s. R s s"
    and R_trans: "\<And>a b c. R a b \<Longrightarrow> R b c \<Longrightarrow> R a c"
    and R_tick: "\<And>s r s'. tick ev s = (r, s') \<Longrightarrow> R s s'"
    and R_get: "\<And>b na s r s'. getCmp ev b na s = (r, s') \<Longrightarrow> P b \<Longrightarrow> R s s'"
    and R_dl: "\<And>s d. R s (s\<lparr>downlaoded := d\<rparr>)"
    and P_filter: "\<And>b f. P b \<Longrightarrow> P (filter f b)"
    and P_limit: "\<And>a d dt k bs dt'. limitToNewChunks a d dt maxBatch = Inr (k, bs, dt') \<Longrightarrow> list_all P bs"
  shows "levelsLoop n ev numAbsent absent st = (r, st') \<Longrightarrow> R st st'"
proof (induction n arbitrary: numAbsent absent st)
  case 0
  then show ?case by (simp add: R_refl)
next
  case (Suc n)
  show ?case
  proof (cases "numAbsent > 0")
    case False
    with Suc.prems show ?thesis by (simp add: R_refl)
  next
    case True
    show ?thesis
    proof (cases "limitToNewChunks absent (downloaded st) (downlaoded st) maxBatch")
      case (Inl err)
      with Suc.prems True show ?thesis by (simp add: R_refl)
    next
      case (Inr res)
      obtain k bs dlt where res: "res = (k, bs, dlt)" by (cases res)
      have Pbs: "list_all P bs" using P_limit Inr res by blast
      obtain br st1 where bl: "batchesLoop n ev 0 bs [] (st\<lparr>downlaoded := dlt\<rparr>) = (br, st1)"
        by (cases "batchesLoop n ev 0 bs [] (st\<lparr>downlaoded := dlt\<rparr>)")
      have "R (st\<lparr>downlaoded := dlt\<rparr>) st1"
        by (rule batchesLoop_rel [where R = R and P = P, OF _ _ _ _ _ _ bl Pbs])
           (rule R_refl | erule (1) R_trans | erule R_tick | erule (1) R_get | rule R_dl
             | erule P_filter)+
      with R_dl have s1: "R st st1" by (rule R_trans)
      show ?thesis
      proof (cases br)
        case None
        with Suc.prems True Inr res bl s1 show ?thesis by simp
      next
        case (Some x)
        show ?thesis
        proof (cases x)
          case (Inl err)
          with Suc.prems True Inr res bl s1 Some show ?thesis by simp
        next
          case na: (Inr nextAbsent)
          with Suc.prems True Inr res bl Some
          have "levelsLoop n ev k nextAbsent st1 = (r, st')" by simp
          from s1 Suc.IH [OF this] show ?thesis by (rule R_trans)
        qed
      qed
    qed
  qed
qed
























lemma levelsLoop_sent_ok:
  assumes "levelsLoop n ev numAbsent absent st = (r, st')"
  shows "sent_ok st st'"
proof (rule levelsLoop_rel [where R = sent_ok and P = "\<lambda>b. True", OF _ _ _ _ _ _ _ assms])
  show "\<And>s. sent_ok s s" by (rule sent_ok_refl)
  show "\<And>a b c. sent_ok a b \<Longrightarrow> sent_ok b c \<Longrightarrow> sent_ok a c" by (rule sent_ok_trans)
  show "\<And>s r s'. tick ev s = (r, s') \<Longrightarrow> sent_ok s s'" by (rule tick_sent_ok)
  show "\<And>b na s r s'. getCmp ev b na s = (r, s') \<Longrightarrow> True \<Longrightarrow> sent_ok s s'"
    by (rule getCmp_sent_ok)
  show "\<And>s d. sent_ok s (s\<lparr>downlaoded := d\<rparr>)" by (simp add: sent_ok_def)
  show "\<And>b f. True \<Longrightarrow> True" by simp
  show "\<And>a d dt k bs dt'. limitToNewChunks a d dt maxBatch = Inr (k, bs, dt')
          \<Longrightarrow> list_all (\<lambda>b. True) bs"
    by (simp add: list_all_iff)
qed

lemma ex_tree_run:
  "fst (pullDriver 10 ex_env (ex_pstate ex_walk_tree 2)) = Some None
   \<and> fetch_calls (snd (pullDriver 10 ex_env (ex_pstate ex_walk_tree 2))) = [[1], [2, 3], [4, 5]]
   \<and> map (\<lambda>w. map H (w_chunks w))
        (completedTables (snd (pullDriver 10 ex_env (ex_pstate ex_walk_tree 2))))
      = [[1, 2], [3, 4], [5]]"
  by (simp add: driver_defs ex_driver_defs Let_def numeral_eq_Suc)

section \<open>The size of the batches\<close>




section \<open>The rotation of the writers\<close>

text \<open>
  C7. The writers a pull sends on the completed-tables channel are some writers that
  each held at least \<open>chunksPerTF\<close> chunks when sent, followed by at most one last
  writer; that last one holds at least one chunk, and it is sent only when the levels have
  ended without error, just before the channel is closed.
\<close>

theorem rotated_writers_full:
  "\<exists>ws fin. completedTables (snd (pullDriver n ev st)) = completedTables st @ ws @ fin
     \<and> list_all (\<lambda>w. chunksPerTF st \<le> ChunkCount w) ws
     \<and> (fin = [] \<or> (\<exists>w. fin = [w] \<and> 0 < ChunkCount w
                        \<and> fst (pullDriver n ev st) = Some None
                        \<and> chan_closed (snd (pullDriver n ev st))))"
proof -
  obtain f st1 where t: "tick ev st = (f, st1)" by (cases "tick ev st")
  let ?absent = "InsertAll [] (hashes st1)"
  obtain r st2 where l: "levelsLoop n ev (int (length ?absent)) ?absent st1 = (r, st2)"
    by (cases "levelsLoop n ev (int (length ?absent)) ?absent st1")
  have s1: "sent_ok st st1" by (rule tick_sent_ok [OF t])
  have "sent_ok st st2"
    using s1 levelsLoop_sent_ok [OF l] by (rule sent_ok_trans)
  then obtain ws where ws: "completedTables st2 = completedTables st @ ws"
    and ok: "list_all (\<lambda>w. chunksPerTF st \<le> ChunkCount w) ws"
    by (auto simp: sent_ok_def)
  have c1: "completedTables st1 = completedTables st" using t by (auto simp: tick_def)
  show ?thesis
  proof (cases f)
    case (Some err)
    with t have "completedTables (snd (pullDriver n ev st)) = completedTables st @ [] @ []"
      by (simp add: pullDriver_def c1)
    then show ?thesis by (intro exI [of _ "[]"] conjI) simp_all
  next
    case None
    note f = this
    show ?thesis
    proof (cases "r = Some None \<and> (\<exists>w. wr st2 = Some w \<and> 0 < ChunkCount w)
                    \<and> fst (tick ev st2) = None")
      case True
      then obtain w where w: "wr st2 = Some w" "0 < ChunkCount w" by blast
      obtain st3 where t3: "tick ev st2 = (None, st3)" using True by (cases "tick ev st2") auto
      have c3: "completedTables st3 = completedTables st2" using t3 by (auto simp: tick_def)
      have "pullDriver n ev st
              = (Some None, st3\<lparr>completedTables := completedTables st3 @ [w], chan_closed := True\<rparr>)"
        using t f l True w t3 by (simp add: pullDriver_def Let_def)
      then show ?thesis using ws ok c3 w
        by (intro exI [of _ ws] exI [of _ "[w]"]) simp
    next
      case False
      have "completedTables (snd (pullDriver n ev st)) = completedTables st2"
        using t f l False
        by (auto simp: pullDriver_def Let_def tick_def split: option.splits prod.splits if_splits)
      then show ?thesis using ws ok
        by (intro exI [of _ ws] exI [of _ "[]"]) simp
    qed
  qed
qed


theorem rotated_writers_full_witness:
  "map ChunkCount (completedTables (snd (pullDriver 10 ex_env (ex_pstate ex_walk_tree 2))))
     = [2, 2, 1]
   \<and> chunksPerTF (ex_pstate ex_walk_tree 2) = 2
   \<and> fst (pullDriver 10 ex_env (ex_pstate ex_walk_tree 2)) = Some None"
proof -
  have "map ChunkCount (completedTables (snd (pullDriver 10 ex_env (ex_pstate ex_walk_tree 2))))
          = map (\<lambda>hs. int (length hs)) (map (\<lambda>w. map H (w_chunks w))
              (completedTables (snd (pullDriver 10 ex_env (ex_pstate ex_walk_tree 2)))))"
    by (simp add: ChunkCount_def comp_def)
  with rotated_writers_full [of 10 ex_env "ex_pstate ex_walk_tree 2"] ex_tree_run
  show ?thesis by (simp add: ex_pstate_def)
qed

section \<open>The accidental cycle\<close>

lemma cycle_puller_constructed:
  "NewPuller ex_ctor_env ''tmp'' k (ex_src\<lparr>cs_chunks := [1]\<rparr>) ex_sink ex_walk_cycle [1] False
     = Inr (cycle_puller k)"
  by (simp add: NewPuller_def HasMany_def NewHashSet_def Insert_def Has_def Size_def Version_def
        ex_ctor_env_def ex_src_def ex_sink_def cycle_puller_def open_push_log_def)

lemma cyc_inv_start: "cyc_inv (start (cycle_puller k))"
  by (simp add: cyc_inv_def start_def cycle_puller_def Puller.extend_def ex_sink_def
        NewCmpChunkTableWriter_def)

lemma processChunk_cycle:
  assumes "cyc_inv st"
  shows "\<exists>st'. processChunk cycle_env (ex_chunk 1) (0, []) st = (Inr (1, [1]), st')
           \<and> cyc_inv st' \<and> fetch_calls st' = fetch_calls st"
  using assms
  by (auto simp: processChunk_def rotate_def tick_def cyc_inv_def cycle_env_def ex_walk_cycle_def
        collect_refs_def AddCmpChunk_def NewCmpChunkTableWriter_def Insert_def Has_def Let_def)

lemma getCmp_cycle:
  assumes "cyc_inv st"
  shows "\<exists>st'. getCmp cycle_env [1] [] st = (Inr [1], st')
           \<and> cyc_inv st' \<and> fetch_calls st' = fetch_calls st @ [[1]]"
proof -
  let ?st0 = "st\<lparr>pstats := (pstats st)
                   \<lparr>totalSourceChunks := totalSourceChunks (pstats st) + of_nat (length [1::nat])\<rparr>,
                  fetch_calls := fetch_calls st @ [[1]]\<rparr>"
  have "cyc_inv ?st0" using assms by (simp add: cyc_inv_def)
  from processChunk_cycle [OF this] obtain st' where
    p: "processChunk cycle_env (ex_chunk 1) (0, []) ?st0 = (Inr (1, [1]), st')"
    and i: "cyc_inv st'" and f: "fetch_calls st' = fetch_calls st @ [[1]]" by auto
  have "getCmp cycle_env [1] [] st = (Inr [1], st')"
    using p by (simp add: getCmp_def Let_def cycle_env_def)
  with i f show ?thesis by blast
qed

lemma batchesLoop_cycle:
  assumes "cyc_inv st"
  shows "\<exists>st'. batchesLoop (Suc n) cycle_env 0 [[1]] [] st
                 = (if n = 0 then None else Some (Inr [1]), st')
           \<and> cyc_inv st' \<and> fetch_calls st' = fetch_calls st @ [[1]]"
proof -
  obtain st1 where t: "tick cycle_env st = (None, st1)" and i1: "cyc_inv st1"
    and f1: "fetch_calls st1 = fetch_calls st"
    using assms by (auto simp: tick_def cycle_env_def cyc_inv_def)
  have h: "HasMany (sinkDBCS st1) None ([[1]] ! 0) = Inr [1]"
    using i1 by (simp add: HasMany_def cyc_inv_def)
  from getCmp_cycle [OF i1] obtain st2 where
    g: "getCmp cycle_env [1] [] st1 = (Inr [1], st2)" and i2: "cyc_inv st2"
    and f2: "fetch_calls st2 = fetch_calls st1 @ [[1]]" by auto
  have "batchesLoop (Suc n) cycle_env 0 [[1]] [] st = batchesLoop n cycle_env (Suc 0) [[1]] [1] st2"
    using t h g by (simp add: maxBatch_def)
  moreover have "batchesLoop n cycle_env (Suc 0) [[1]] [1] st2
                   = (if n = 0 then None else Some (Inr [1]), st2)"
    by (cases n) simp_all
  ultimately show ?thesis using i2 f1 f2 by auto
qed

lemma limit_cycle: "limitToNewChunks [Suc 0] [] dlt maxBatch = Inr (1, [[Suc 0]], dlt)"
  by (simp add: limitToNewChunks_def maxBatch_def Let_def)

lemma levelsLoop_cycle:
  "cyc_inv st \<Longrightarrow>
     fst (levelsLoop n cycle_env 1 [1] st) = None
     \<and> fetch_calls (snd (levelsLoop n cycle_env 1 [1] st)) = fetch_calls st @ replicate (n - 1) [1]"
proof (induction n arbitrary: st)
  case 0
  then show ?case by simp
next
  case (Suc n)
  let ?st = "st\<lparr>downlaoded := downlaoded st\<rparr>"
  have inv: "cyc_inv ?st" using Suc.prems by (simp add: cyc_inv_def)
  have dl: "downloaded st = []" using Suc.prems by (simp add: cyc_inv_def)
  show ?case
  proof (cases n)
    case 0
    then show ?thesis by (simp add: limit_cycle dl)
  next
    case (Suc m)
    from batchesLoop_cycle [OF inv, of m] obtain st' where
      b: "batchesLoop (Suc m) cycle_env 0 [[1]] [] ?st = (if m = 0 then None else Some (Inr [1]), st')"
      and i: "cyc_inv st'" and f: "fetch_calls st' = fetch_calls st @ [[1]]" by auto
    show ?thesis
    proof (cases "m = 0")
      case True
      with b f Suc show ?thesis by (simp add: limit_cycle dl)
    next
      case False
      with b Suc have step: "levelsLoop (Suc n) cycle_env 1 [1] st = levelsLoop n cycle_env 1 [1] st'"
        by (simp add: limit_cycle dl)
      have rep: "[[1]] @ replicate (n - 1) [1::nat] = replicate (Suc n - 1) [1]"
        using Suc by simp
      from Suc.IH [OF i] have "fst (levelsLoop n cycle_env 1 [1] st') = None"
        and "fetch_calls (snd (levelsLoop n cycle_env 1 [1] st'))
               = fetch_calls st @ ([[1]] @ replicate (n - 1) [1])"
        using f by simp_all
      then show ?thesis unfolding step rep by simp
    qed
  qed
qed

text \<open>
  C2 at the failing input. The source holds the chunk 1 that refers to itself, the root is
  1, the sink is empty and nothing fails. The first branch of \<open>limitToNewChunks\<close>
  inserts nothing into \<open>downloaded\<close>, so every level finds 1 new again: for every
  amount of fuel \<open>n\<close> the driver has not returned, and it has fetched the chunk
  \<open>n - 1\<close> times.
\<close>

theorem cycle_is_fetched_again_and_again:
  "fst (pullDriver n cycle_env (start (cycle_puller k))) = None
   \<and> fetch_calls (snd (pullDriver n cycle_env (start (cycle_puller k)))) = replicate (n - 1) [1]"
proof -
  let ?st = "start (cycle_puller k)"
  obtain st1 where t: "tick cycle_env ?st = (None, st1)" and i1: "cyc_inv st1"
    and f1: "fetch_calls st1 = []" and h: "hashes st1 = [1]"
    using cyc_inv_start [of k]
    by (auto simp: tick_def cycle_env_def cyc_inv_def start_def cycle_puller_def Puller.extend_def)
  have a: "InsertAll [] (hashes st1) = [1]" using h by (simp add: InsertAll_def Insert_def Has_def)
  obtain r st2 where l: "levelsLoop n cycle_env 1 [1] st1 = (r, st2)"
    by (cases "levelsLoop n cycle_env 1 [1] st1")
  from levelsLoop_cycle [OF i1, of n] l f1
  have "r = None" and "fetch_calls st2 = replicate (n - 1) [1]" by simp_all
  then show ?thesis using t a l by (simp add: pullDriver_def Let_def)
qed


text \<open>The same happens without a cycle: when 1 refers to 2 and 3, and 2 refers to 3, the
  chunk 3 is fetched in the second level and again in the third, and is written twice.\<close>

lemma ex_dag_run:
  "fst (pullDriver 10 ex_env (ex_pstate ex_walk_dag 100)) = Some None
   \<and> fetch_calls (snd (pullDriver 10 ex_env (ex_pstate ex_walk_dag 100))) = [[1], [2, 3], [3]]
   \<and> map (\<lambda>w. map H (w_chunks w))
        (completedTables (snd (pullDriver 10 ex_env (ex_pstate ex_walk_dag 100))))
      = [[1, 2, 3, 3]]"
  by (simp add: driver_defs ex_env_def ex_walk_dag_def ex_pstate_def ex_chunk_def ex_sink_def
        ex_src_def zero_stats_def Let_def numeral_eq_Suc)

section \<open>The completeness check of a batch\<close>

lemma processChunk_no_fault:
  assumes "\<forall>t. faults ev t = None" and "ToChunk ev c = Inr ch"
    and "\<forall>ch. snd (waf st ch) = None" and "wr st = Some w" and "\<not> w_finished w"
  shows "\<exists>nl' st'. processChunk ev c (seen, nl) st = (Inr (Suc seen, nl'), st')
           \<and> waf st' = waf st \<and> (\<exists>w'. wr st' = Some w' \<and> \<not> w_finished w')"
proof -
  obtain calls where wk: "waf st ch = (calls, None)"
    using assms(3) by (cases "waf st ch") (auto dest: spec [of _ ch])
  show ?thesis
    using assms(1,2,4,5) wk
    by (auto simp: processChunk_def rotate_def tick_def AddCmpChunk_def NewCmpChunkTableWriter_def
          Let_def)
qed

lemma packLoop_no_fault:
  assumes "\<forall>t. faults ev t = None"
  shows "\<forall>c\<in>set cs. \<exists>ch. ToChunk ev c = Inr ch \<Longrightarrow> \<forall>ch. snd (waf st ch) = None \<Longrightarrow>
         wr st = Some w \<Longrightarrow> \<not> w_finished w \<Longrightarrow>
         \<exists>nl' st'. packLoop ev cs (seen, nl) st = (Inr (seen + length cs, nl'), st')"
proof (induction cs arbitrary: seen nl st w)
  case Nil
  then show ?case by simp
next
  case (Cons c cs)
  from Cons.prems(1) obtain ch where ch: "ToChunk ev c = Inr ch" by auto
  from processChunk_no_fault [OF assms ch Cons.prems(2,3,4), of seen nl]
  obtain nl1 st1 w1 where p: "processChunk ev c (seen, nl) st = (Inr (Suc seen, nl1), st1)"
    and wf: "waf st1 = waf st" and w1: "wr st1 = Some w1" "\<not> w_finished w1" by auto
  have d: "\<forall>c\<in>set cs. \<exists>ch. ToChunk ev c = Inr ch" using Cons.prems(1) by simp
  have k: "\<forall>ch. snd (waf st1 ch) = None" using Cons.prems(2) wf by simp
  from Cons.IH [OF d k w1, of "Suc seen" nl1] p show ?case by auto
qed

text \<open>
  C4 (as amended). When nothing fails from outside, the fetch returns no error, every
  chunk it sent decompresses and the walker succeeds on each, then \<open>getCmp\<close> fails
  with the error \<open>"failed to get all chunks."\<close> when the number of chunks that
  reached the pack stage differs from the number of addresses in the batch, and returns
  the next level when the two numbers are equal.
\<close>

theorem completeness_check:
  assumes "\<forall>t. faults ev t = None"
    and "GetManyCompressed ev (length (fetch_calls st)) batch = (found, None)"
    and "\<forall>c\<in>set found. \<exists>ch. ToChunk ev c = Inr ch"
    and "\<forall>ch. snd (waf st ch) = None"
    and "wr st = Some w" and "\<not> w_finished w"
  shows "(length found \<noteq> length batch
            \<longrightarrow> fst (getCmp ev batch nl st) = Inl (ErrorsNew ''failed to get all chunks.''))
       \<and> (length found = length batch \<longrightarrow> (\<exists>nl'. fst (getCmp ev batch nl st) = Inr nl'))"
proof -
  let ?st0 = "st\<lparr>pstats := (pstats st)
                   \<lparr>totalSourceChunks := totalSourceChunks (pstats st) + of_nat (length batch)\<rparr>,
                  fetch_calls := fetch_calls st @ [batch]\<rparr>"
  have k: "\<forall>ch. snd (waf ?st0 ch) = None" using assms(4) by simp
  have w0: "wr ?st0 = Some w" using assms(5) by simp
  from packLoop_no_fault [OF assms(1,3) k w0 assms(6), of 0 nl]
  obtain nl' st' where "packLoop ev found (0, nl) ?st0 = (Inr (length found, nl'), st')" by auto
  then show ?thesis using assms(2) by (simp add: getCmp_def Let_def)
qed

theorem completeness_check_witness:
  "fst (getCmp ex_short_env [1] [] (ex_pstate ex_walk_leaf 5))
     = Inl (ErrorsNew ''failed to get all chunks.'')
   \<and> (\<exists>nl'. fst (getCmp ex_env [1] [] (ex_pstate ex_walk_leaf 5)) = Inr nl')"
proof -
  let ?st = "ex_pstate ex_walk_leaf 5"
  have nf: "\<forall>t. faults ex_short_env t = None" "\<forall>t. faults ex_env t = None"
    by (simp_all add: ex_short_env_def ex_env_def)
  have g1: "GetManyCompressed ex_short_env (length (fetch_calls ?st)) [1] = ([], None)"
    by (simp add: ex_short_env_def)
  have g2: "GetManyCompressed ex_env (length (fetch_calls ?st)) [1] = ([ex_chunk 1], None)"
    by (simp add: ex_env_def)
  have d1: "\<forall>c\<in>set []. \<exists>ch. ToChunk ex_short_env c = Inr ch" by simp
  have d2: "\<forall>c\<in>set [ex_chunk 1]. \<exists>ch. ToChunk ex_env c = Inr ch" by (simp add: ex_env_def)
  have k: "\<forall>ch. snd (waf ?st ch) = None" by (simp add: ex_pstate_def ex_walk_leaf_def)
  have w: "wr ?st = Some (NewCmpChunkTableWriter 0)" by (simp add: ex_pstate_def)
  have f: "\<not> w_finished (NewCmpChunkTableWriter 0)" by (simp add: NewCmpChunkTableWriter_def)
  from completeness_check [OF nf(1) g1 d1 k w f, of "[]"]
    completeness_check [OF nf(2) g2 d2 k w f, of "[]"]
  show ?thesis by simp
qed

text \<open>
  C4 (as stated) fails twice. A source that sends the one chunk of the batch twice: two
  chunks reach the pack stage, not fewer than the one asked for, and the batch fails the
  check. A chunk that does not decompress: no chunk reaches the pack stage, fewer than
  asked for, and the pull fails with the error of the decompression, not with the one of
  the check.
\<close>

theorem completeness_check_is_an_inequality:
  "GetManyCompressed ex_dup_env 0 [1] = ([ex_chunk 1, ex_chunk 1], None)
   \<and> fst (getCmp ex_dup_env [1] [] (ex_pstate ex_walk_leaf 5))
       = Inl (ErrorsNew ''failed to get all chunks.'')
   \<and> GetManyCompressed ex_undecodable_env 0 [1] = ([ex_chunk 1], None)
   \<and> fst (getCmp ex_undecodable_env [1] [] (ex_pstate ex_walk_leaf 5)) = Inl (External 9)
   \<and> completedTables (snd (getCmp ex_undecodable_env [1] [] (ex_pstate ex_walk_leaf 5))) = []
   \<and> wr (snd (getCmp ex_undecodable_env [1] [] (ex_pstate ex_walk_leaf 5)))
       = Some (NewCmpChunkTableWriter 0)"
  by (simp add: driver_defs ex_driver_defs ex_dup_env_def ex_undecodable_env_def ex_walk_leaf_def
        Let_def)

end
